theory Spec2Isabelle
  imports Complex_Main
begin

section \<open>Frames, decoded signals and the codec\<close>

text \<open>
  A CAN frame as the scripts build and receive it: \<^verbatim>\<open>can.Message(arbitration_id=...,
  data=..., is_extended_id=False)\<close>. Payload bytes are naturals below 256.
\<close>

type_synonym byte = nat

record can_msg =
  arbitration_id :: nat
  data :: "byte list"

text \<open>
  A decoded signal value. \<^verbatim>\<open>decode_message\<close> of cantools yields numbers (an int, or a float
  after scaling: both are kept by their exact rational value) or a named choice that carries
  its integer. The scripts only compare a value with \<^verbatim>\<open>1\<close> and print it.
\<close>

datatype sigval = Num rat | Named int string

fun eq_one :: "sigval \<Rightarrow> bool" where
  "eq_one (Num r) = (r = 1)"
| "eq_one (Named v n) = (v = 1)"

type_synonym signals = "string \<rightharpoonup> sigval"

text \<open>
  The loaded DBC handle, seen through \<^verbatim>\<open>db.decode_message(arbitration_id, data)\<close>:
  \<open>None\<close> stands for any exception the call raises. The listeners hold
  \<^verbatim>\<open>self.db = None\<close> when the file could not be loaded, hence \<open>database option\<close>.
\<close>

type_synonym database = "nat \<Rightarrow> byte list \<Rightarrow> signals option"

text \<open>What a listener prints, one constructor per \<^verbatim>\<open>print\<close> statement of the three scripts.\<close>

datatype printed =
    GotValidTrack sigval
  | RadarMessage nat "byte list"
  | Status4FF "byte list"
  | TrackLine nat "byte list"
  | ValidTrackDistance "sigval option"
  | OtherLine nat "byte list"
  | RxLine nat "byte list"
  | ValidTrackAt "sigval option"
  | TrackNotValid "sigval option"
  | CouldNotDecode
  | NoDbcToDecode

text \<open>The lines that report the distance of a valid track.\<close>

fun is_distance_report :: "printed \<Rightarrow> bool" where
  "is_distance_report (GotValidTrack d) = True"
| "is_distance_report (ValidTrackDistance d) = True"
| "is_distance_report (ValidTrackAt d) = True"
| "is_distance_report p = False"

section \<open>The reception handlers\<close>

subsection \<open>toyota\_radar\_rpi.py: \<^verbatim>\<open>OnCan.on_message_received\<close>\<close>

definition track_window_rpi :: "nat \<Rightarrow> bool" where
  "track_window_rpi i = (0x210 \<le> i \<and> i < 0x21F)"

text \<open>
  \<^verbatim>\<open>msg["VALID"]\<close> and \<^verbatim>\<open>msg["LONG_DIST"]\<close> raise \<^verbatim>\<open>KeyError\<close> on a missing key; the
  \<^verbatim>\<open>except Exception: pass\<close> around the decode swallows it, so nothing is printed.
\<close>

definition on_message_received_rpi :: "database option \<Rightarrow> can_msg \<Rightarrow> printed list" where
  "on_message_received_rpi db boo =
     (if track_window_rpi (arbitration_id boo) then
        (case db of
           Some d \<Rightarrow>
             (case d (arbitration_id boo) (data boo) of
                None \<Rightarrow> []
              | Some msg \<Rightarrow>
                  (case msg ''VALID'' of
                     None \<Rightarrow> []
                   | Some v \<Rightarrow>
                       if eq_one v then
                         (case msg ''LONG_DIST'' of
                            None \<Rightarrow> []
                          | Some long_dist \<Rightarrow> [GotValidTrack long_dist])
                       else []))
         | None \<Rightarrow> [RadarMessage (arbitration_id boo) (data boo)])
      else [])"

subsection \<open>toyota\_radar\_2019.py: \<^verbatim>\<open>OnCanRadar.on_message_received\<close>\<close>

record MessageLogger =
  can0_tx :: nat
  can1_rx :: nat
  radar_status_msgs :: nat
  radar_track_msgs :: nat
  valid_tracks :: nat
  last_4ff_data :: "byte list option"

definition track_window_2019 :: "nat \<Rightarrow> bool" where
  "track_window_2019 i = (0x210 \<le> i \<and> i \<le> 0x21F)"

text \<open>\<^verbatim>\<open>decoded.get("VALID") == 1\<close>: a missing key gives \<^verbatim>\<open>None\<close>, which is not 1.\<close>

definition get_eq_one :: "signals \<Rightarrow> string \<Rightarrow> bool" where
  "get_eq_one decoded k = (case decoded k of None \<Rightarrow> False | Some v \<Rightarrow> eq_one v)"

definition on_message_received_2019 ::
  "database option \<Rightarrow> can_msg \<Rightarrow> MessageLogger \<Rightarrow> MessageLogger \<times> printed list" where
  "on_message_received_2019 db msg logger0 =
     (let logger = logger0\<lparr>can1_rx := can1_rx logger0 + 1\<rparr> in
      if arbitration_id msg = 0x4FF then
        (let logger = logger\<lparr>radar_status_msgs := radar_status_msgs logger + 1\<rparr> in
         if last_4ff_data logger \<noteq> Some (data msg)
         then (logger\<lparr>last_4ff_data := Some (data msg)\<rparr>, [Status4FF (data msg)])
         else (logger, []))
      else if track_window_2019 (arbitration_id msg) then
        (let logger = logger\<lparr>radar_track_msgs := radar_track_msgs logger + 1\<rparr>;
             out = [TrackLine (arbitration_id msg) (data msg)] in
         case db of
           None \<Rightarrow> (logger, out)
         | Some d \<Rightarrow>
             (case d (arbitration_id msg) (data msg) of
                None \<Rightarrow> (logger, out)
              | Some decoded \<Rightarrow>
                  if get_eq_one decoded ''VALID''
                  then (logger\<lparr>valid_tracks := valid_tracks logger + 1\<rparr>,
                        out @ [ValidTrackDistance (decoded ''LONG_DIST'')])
                  else (logger, out)))
      else (logger, [OtherLine (arbitration_id msg) (data msg)]))"

subsection \<open>toyota\_radar\_debug.py: \<^verbatim>\<open>OnCan.on_message_received\<close>\<close>

record OnCan =
  msg_count :: nat
  valid_tracks_debug :: nat

definition track_window_debug :: "nat \<Rightarrow> bool" where
  "track_window_debug i = (0x210 \<le> i \<and> i \<le> 0x21F)"

definition on_message_received_debug ::
  "database option \<Rightarrow> can_msg \<Rightarrow> OnCan \<Rightarrow> OnCan \<times> printed list" where
  "on_message_received_debug db msg self0 =
     (let self = self0\<lparr>msg_count := msg_count self0 + 1\<rparr>;
          out = [RxLine (arbitration_id msg) (data msg)] in
      if track_window_debug (arbitration_id msg) then
        (case db of
           Some d \<Rightarrow>
             (case d (arbitration_id msg) (data msg) of
                None \<Rightarrow> (self, out @ [CouldNotDecode])
              | Some decoded \<Rightarrow>
                  if get_eq_one decoded ''VALID''
                  then (self\<lparr>valid_tracks_debug := valid_tracks_debug self + 1\<rparr>,
                        out @ [ValidTrackAt (decoded ''LONG_DIST'')])
                  else (self, out @ [TrackNotValid (decoded ''VALID'')]))
         | None \<Rightarrow> (self, out @ [NoDbcToDecode]))
      else (self, out))"

text \<open>
  The notifier thread calls the handler once per frame, in arrival order; the logger is
  the only state carried from one call to the next.
\<close>

fun receive_all_2019 ::
  "database option \<Rightarrow> can_msg list \<Rightarrow> MessageLogger \<Rightarrow> MessageLogger" where
  "receive_all_2019 db [] logger = logger"
| "receive_all_2019 db (m # ms) logger =
     receive_all_2019 db ms (fst (on_message_received_2019 db m logger))"

fun receive_all_debug :: "database option \<Rightarrow> can_msg list \<Rightarrow> OnCan \<Rightarrow> OnCan" where
  "receive_all_debug db [] self = self"
| "receive_all_debug db (m # ms) self =
     receive_all_debug db ms (fst (on_message_received_debug db m self))"

text \<open>
  The payload of a frame "decodes with the decoded VALID signal equal to 1", written out
  from the words and not through the handlers' own comparison: a database is loaded, the
  decode does not raise, and the decoded signal VALID is there and is the number 1 (or a
  named choice whose integer is 1).
\<close>

definition valid_is_1 :: "database option \<Rightarrow> can_msg \<Rightarrow> bool" where
  "valid_is_1 db msg =
     (case db of
        None \<Rightarrow> False
      | Some d \<Rightarrow>
          (case d (arbitration_id msg) (data msg) of
             None \<Rightarrow> False
           | Some decoded \<Rightarrow>
               (case decoded ''VALID'' of
                  None \<Rightarrow> False
                | Some (Num r) \<Rightarrow> r = 1
                | Some (Named v n) \<Rightarrow> v = 1)))"

section \<open>The transmission loops\<close>

text \<open>
  The two buses by their socketcan channel names. In toyota\_radar\_rpi.py and
  toyota\_radar\_debug.py \<^verbatim>\<open>can_bus1\<close> is can0 (car) and \<^verbatim>\<open>can_bus2\<close> is can1 (radar); in
  toyota\_radar\_2019.py they are \<^verbatim>\<open>can_bus0\<close> and \<^verbatim>\<open>can_bus1\<close>.
\<close>

datatype channel = Can0 | Can1

datatype exn = CanError | EncodeError | ZeroDivisionError

datatype outcome = Normal | Raised exn

text \<open>
  The message object \<^verbatim>\<open>db.get_message_by_name('ACC_CONTROL')\<close>: its frame id and its
  \<^verbatim>\<open>encode\<close>, which returns the payload or raises (\<open>None\<close>).
\<close>

record acc_message_t =
  frame_id :: nat
  encode :: "(string \<times> rat) list \<Rightarrow> byte list option"

text \<open>
  What the loop cannot decide itself: whether \<^verbatim>\<open>bus.send\<close> raises for a frame on a given
  tick, and how long the work of an iteration takes (seconds).
\<close>

record env =
  send_fails :: "nat \<Rightarrow> channel \<Rightarrow> can_msg \<Rightarrow> bool"
  work_time :: "nat \<Rightarrow> rat"

text \<open>
  The state of the main thread: the tick counter \<^verbatim>\<open>frame\<close> (a float in two of the scripts,
  which only ever holds the integers 0, 1, 2, ...), the wall clock, the frames the buses
  accepted and the signal sets handed to \<^verbatim>\<open>encode\<close> (both oldest first), and the transmit
  counter (\<^verbatim>\<open>tx_count\<close> in the debug script, \<^verbatim>\<open>logger.can0_tx\<close> in the 2019 script).
\<close>

record tx_state =
  frame :: nat
  clock :: rat
  sent :: "(channel \<times> can_msg) list"
  encoded :: "(string \<times> rat) list list"
  tx_count :: nat

definition bus_send :: "env \<Rightarrow> channel \<Rightarrow> can_msg \<Rightarrow> tx_state \<Rightarrow> outcome \<times> tx_state" where
  "bus_send e ch m s =
     (if send_fails e (frame s) ch m then (Raised CanError, s)
      else (Normal, s\<lparr>sent := sent s @ [(ch, m)]\<rparr>))"

text \<open>Sequencing of statements: a raised exception skips what follows.\<close>

definition and_then ::
  "outcome \<times> tx_state \<Rightarrow> (tx_state \<Rightarrow> outcome \<times> tx_state) \<Rightarrow> outcome \<times> tx_state" where
  "and_then r k = (case r of (Normal, s) \<Rightarrow> k s | (Raised x, s) \<Rightarrow> (Raised x, s))"

text \<open>The signal set of the ACC\_CONTROL frame encoded in every main loop.\<close>

definition acc_signals :: "(string \<times> rat) list" where
  "acc_signals =
     [(''ACCEL_CMD'', 0), (''SET_ME_X63'', 0x63), (''SET_ME_1'', 1),
      (''RELEASE_STANDSTILL'', 1), (''CANCEL_REQ'', 0), (''CHECKSUM'', 113)]"

definition acc_encode :: "acc_message_t \<Rightarrow> tx_state \<Rightarrow> (byte list) option \<times> tx_state" where
  "acc_encode acc s = (encode acc acc_signals, s\<lparr>encoded := encoded s @ [acc_signals]\<rparr>)"

text \<open>\<^verbatim>\<open>frame += 1; time.sleep(1. / 100)\<close>, after the work of the iteration.\<close>

definition next_frame :: "env \<Rightarrow> tx_state \<Rightarrow> tx_state" where
  "next_frame e s =
     s\<lparr>frame := frame s + 1, clock := clock s + work_time e (frame s) + 1 / 100\<rparr>"

subsection \<open>toyota\_radar\_rpi.py and toyota\_radar\_debug.py\<close>

text \<open>An entry \<^verbatim>\<open>(addr, ecu, cars, bus, fr_step, vl)\<close> of \<^verbatim>\<open>STATIC_MSGS\<close>.\<close>

type_synonym static_msg = "nat \<times> nat \<times> nat list \<times> nat \<times> nat \<times> byte list"

definition DSU :: nat where "DSU = 1"
definition PRIUS :: nat where "PRIUS = 0"
definition LEXUS_RXH :: nat where "LEXUS_RXH = 1"
definition RAV4 :: nat where "RAV4 = 2"
definition RAV4H :: nat where "RAV4H = 3"
definition COROLLA :: nat where "COROLLA = 4"

definition STATIC_MSGS :: "static_msg list" where
  "STATIC_MSGS =
     [(0x141, DSU, [PRIUS, RAV4H, LEXUS_RXH, RAV4, COROLLA], 1, 2, [0x00, 0x00, 0x00, 0x46]),
      (0x128, DSU, [PRIUS, RAV4H, LEXUS_RXH, RAV4, COROLLA], 1, 3,
         [0xf4, 0x01, 0x90, 0x83, 0x00, 0x37]),
      (0x283, DSU, [PRIUS, RAV4H, LEXUS_RXH, RAV4, COROLLA], 0, 3,
         [0x00, 0x00, 0x00, 0x00, 0x00, 0x00, 0x8c]),
      (0x344, DSU, [PRIUS, RAV4H, LEXUS_RXH, RAV4, COROLLA], 0, 5,
         [0x00, 0x00, 0x01, 0x00, 0x00, 0x00, 0x00, 0x50]),
      (0x160, DSU, [PRIUS, RAV4H, LEXUS_RXH, RAV4, COROLLA], 1, 7,
         [0x00, 0x00, 0x08, 0x12, 0x01, 0x31, 0x9c, 0x51]),
      (0x161, DSU, [PRIUS, RAV4H, LEXUS_RXH, RAV4, COROLLA], 1, 7,
         [0x00, 0x1e, 0x00, 0x00, 0x00, 0x80, 0x07]),
      (0x365, DSU, [RAV4, COROLLA], 0, 20, [0x00, 0x00, 0x00, 0x80, 0xfc, 0x00, 0x08]),
      (0x366, DSU, [RAV4, COROLLA], 0, 20, [0x00, 0x72, 0x07, 0xff, 0x09, 0xfe, 0x00]),
      (0x4CB, DSU, [PRIUS, RAV4H, LEXUS_RXH, RAV4, COROLLA], 0, 100,
         [0x0c, 0x00, 0x00, 0x00, 0x00, 0x00, 0x00, 0x00])]"

text \<open>
  The payload built for an entry that is due: \<^verbatim>\<open>tosend = bytearray(vl)\<close>, with the rolling
  counter appended for 0x489 and 0x48a on bus 0. \<^verbatim>\<open>int((frame / 100) % 0xf) + 1\<close> on the
  integral, non-negative \<^verbatim>\<open>frame\<close> is \<open>(frame div 100) mod 15 + 1\<close>; \<^verbatim>\<open>1 << 7\<close> is 128.
\<close>

definition tosend :: "nat \<Rightarrow> static_msg \<Rightarrow> byte list" where
  "tosend fr m =
     (case m of (addr, ecu, cars, bus, fr_step, vl) \<Rightarrow>
        if (addr = 0x489 \<or> addr = 0x48a) \<and> bus = 0 then
          (let cnt = (fr div 100) mod 0xf + 1;
               cnt = (if addr = 0x48a then cnt + 128 else cnt)
           in vl @ [cnt])
        else vl)"

text \<open>\<^verbatim>\<open>can_bus = can_bus1 if bus == 0 else can_bus2\<close>\<close>

definition can_bus :: "nat \<Rightarrow> channel" where
  "can_bus bus = (if bus = 0 then Can0 else Can1)"

text \<open>
  The \<^verbatim>\<open>for\<close> loop over the table. \<^verbatim>\<open>frame % fr_step\<close> raises \<^verbatim>\<open>ZeroDivisionError\<close> for
  a zero step. Nothing inside the loop catches an exception: a failing send leaves the
  loop. The flag says whether the script counts (\<^verbatim>\<open>tx_count += 1\<close>, debug script only).
\<close>

fun static_loop :: "env \<Rightarrow> bool \<Rightarrow> static_msg list \<Rightarrow> tx_state \<Rightarrow> outcome \<times> tx_state" where
  "static_loop e counting [] s = (Normal, s)"
| "static_loop e counting ((addr, ecu, cars, bus, fr_step, vl) # rest) s =
     (if fr_step = 0 then (Raised ZeroDivisionError, s)
      else if frame s mod fr_step = 0 then
        and_then
          (bus_send e (can_bus bus)
             \<lparr>arbitration_id = addr,
              data = tosend (frame s) (addr, ecu, cars, bus, fr_step, vl)\<rparr> s)
          (\<lambda>s. static_loop e counting rest
                  (if counting then s\<lparr>tx_count := tx_count s + 1\<rparr> else s))
      else static_loop e counting rest s)"

text \<open>One iteration of \<^verbatim>\<open>while True\<close>.\<close>

definition tick :: "env \<Rightarrow> bool \<Rightarrow> acc_message_t \<Rightarrow> tx_state \<Rightarrow> outcome \<times> tx_state" where
  "tick e counting acc_message s0 =
     and_then
       (if frame s0 mod 1 = 0 then
          (case acc_encode acc_message s0 of
             (None, s) \<Rightarrow> (Raised EncodeError, s)
           | (Some acc_msg, s) \<Rightarrow>
               and_then
                 (bus_send e Can0 \<lparr>arbitration_id = frame_id acc_message, data = acc_msg\<rparr> s)
                 (\<lambda>s. (Normal, if counting then s\<lparr>tx_count := tx_count s + 1\<rparr> else s)))
        else (Normal, s0))
       (\<lambda>s. and_then (static_loop e counting STATIC_MSGS s)
               (\<lambda>s. (Normal, next_frame e s)))"

definition tick_rpi :: "env \<Rightarrow> acc_message_t \<Rightarrow> tx_state \<Rightarrow> outcome \<times> tx_state" where
  "tick_rpi e = tick e False"

definition tick_debug :: "env \<Rightarrow> acc_message_t \<Rightarrow> tx_state \<Rightarrow> outcome \<times> tx_state" where
  "tick_debug e = tick e True"

text \<open>
  The first \<open>n\<close> iterations of \<^verbatim>\<open>while True\<close>. The loop has no exit of its own: \<open>Normal\<close>
  after \<open>n\<close> iterations means it is still running, \<open>Raised\<close> that an exception left it.
\<close>

fun iterate ::
  "(tx_state \<Rightarrow> outcome \<times> tx_state) \<Rightarrow> nat \<Rightarrow> tx_state \<Rightarrow> outcome \<times> tx_state" where
  "iterate body 0 s = (Normal, s)"
| "iterate body (Suc n) s = and_then (body s) (iterate body n)"

definition main_loop_rpi :: "env \<Rightarrow> acc_message_t \<Rightarrow> nat \<Rightarrow> tx_state \<Rightarrow> outcome \<times> tx_state" where
  "main_loop_rpi e acc_message = iterate (tick_rpi e acc_message)"

definition main_loop_debug :: "env \<Rightarrow> acc_message_t \<Rightarrow> nat \<Rightarrow> tx_state \<Rightarrow> outcome \<times> tx_state" where
  "main_loop_debug e acc_message = iterate (tick_debug e acc_message)"

subsection \<open>toyota\_radar\_2019.py\<close>

text \<open>An entry \<^verbatim>\<open>(addr, bus, fr_step, vl)\<close> of \<^verbatim>\<open>STATIC_MSGS_2019\<close>.\<close>

type_synonym static_msg_2019 = "nat \<times> nat \<times> nat \<times> byte list"

definition STATIC_MSGS_2019 :: "static_msg_2019 list" where
  "STATIC_MSGS_2019 =
     [(0x141, 0, 2, [0x00, 0x00, 0x00, 0x46]),
      (0x128, 1, 3, [0xf4, 0x01, 0x90, 0x83, 0x00, 0x37]),
      (0x283, 0, 3, [0x00, 0x00, 0x00, 0x00, 0x00, 0x00, 0x8c]),
      (0x344, 0, 5, [0x00, 0x00, 0x01, 0x00, 0x00, 0x00, 0x00, 0x50]),
      (0x160, 1, 7, [0x00, 0x00, 0x08, 0x12, 0x01, 0x31, 0x9c, 0x51]),
      (0x161, 1, 7, [0x00, 0x1e, 0x00, 0x00, 0x00, 0x80, 0x07]),
      (0x365, 0, 20, [0x00, 0x00, 0x00, 0x80, 0x03, 0x00, 0x08]),
      (0x366, 0, 20, [0x00, 0x00, 0x4d, 0x82, 0x40, 0x02, 0x00]),
      (0x4CB, 0, 100, [0x0c, 0x00, 0x00, 0x00, 0x00, 0x00, 0x00, 0x00]),
      (0x1D4, 0, 3, [0x00, 0x00, 0x00, 0x00, 0x00, 0x00, 0x00, 0x00]),
      (0x620, 0, 20, [0x00, 0x00, 0x00, 0x00, 0x00, 0x00, 0x00, 0x00])]"


fun static_loop_2019 :: "env \<Rightarrow> static_msg_2019 list \<Rightarrow> tx_state \<Rightarrow> outcome \<times> tx_state" where
  "static_loop_2019 e [] s = (Normal, s)"
| "static_loop_2019 e ((addr, bus, fr_step, vl) # rest) s =
     (if fr_step = 0 then (Raised ZeroDivisionError, s)
      else if frame s mod fr_step = 0 then
        and_then
          (bus_send e (can_bus bus) \<lparr>arbitration_id = addr, data = vl\<rparr> s)
          (\<lambda>s. static_loop_2019 e rest
                  (if bus = 0 then s\<lparr>tx_count := tx_count s + 1\<rparr> else s))
      else static_loop_2019 e rest s)"

text \<open>
  One iteration of \<^verbatim>\<open>while True\<close>; \<^verbatim>\<open>acc_message\<close> is \<^verbatim>\<open>None\<close> when a message name was
  missing from the DBC. The status report every ten seconds only prints.
\<close>

definition tick_2019 :: "env \<Rightarrow> acc_message_t option \<Rightarrow> tx_state \<Rightarrow> outcome \<times> tx_state" where
  "tick_2019 e acc_message s0 =
     and_then
       (case acc_message of
          Some acc \<Rightarrow>
            if frame s0 mod 1 = 0 then
              (case acc_encode acc s0 of
                 (None, s) \<Rightarrow> (Raised EncodeError, s)
               | (Some acc_msg, s) \<Rightarrow>
                   and_then
                     (bus_send e Can0 \<lparr>arbitration_id = frame_id acc, data = acc_msg\<rparr> s)
                     (\<lambda>s. (Normal, s\<lparr>tx_count := tx_count s + 1\<rparr>)))
            else (Normal, s0)
        | None \<Rightarrow> (Normal, s0))
       (\<lambda>s. and_then (static_loop_2019 e STATIC_MSGS_2019 s)
               (\<lambda>s. (Normal, next_frame e s)))"

definition main_loop_2019 ::
  "env \<Rightarrow> acc_message_t option \<Rightarrow> nat \<Rightarrow> tx_state \<Rightarrow> outcome \<times> tx_state" where
  "main_loop_2019 e acc_message = iterate (tick_2019 e acc_message)"

text \<open>The state in which a main loop is entered: \<^verbatim>\<open>frame = 0\<close>, at time \<open>t0\<close>.\<close>

definition loop_entry :: "rat \<Rightarrow> tx_state" where
  "loop_entry t0 = \<lparr>frame = 0, clock = t0, sent = [], encoded = [], tx_count = 0\<rparr>"

subsection \<open>Reading the tables and the traces\<close>

text \<open>The frame an entry of \<^verbatim>\<open>STATIC_MSGS\<close> puts on its bus on tick \<open>t\<close>, and when it is due.\<close>

definition static_frame :: "nat \<Rightarrow> static_msg \<Rightarrow> channel \<times> can_msg" where
  "static_frame t m =
     (case m of (addr, ecu, cars, bus, fr_step, vl) \<Rightarrow>
        (can_bus bus, \<lparr>arbitration_id = addr, data = tosend t m\<rparr>))"

definition due :: "nat \<Rightarrow> static_msg \<Rightarrow> bool" where
  "due t m = (case m of (addr, ecu, cars, bus, fr_step, vl) \<Rightarrow> t mod fr_step = 0)"

definition static_frame_2019 :: "static_msg_2019 \<Rightarrow> channel \<times> can_msg" where
  "static_frame_2019 m =
     (case m of (addr, bus, fr_step, vl) \<Rightarrow> (can_bus bus, \<lparr>arbitration_id = addr, data = vl\<rparr>))"

definition due_2019 :: "nat \<Rightarrow> static_msg_2019 \<Rightarrow> bool" where
  "due_2019 t m = (case m of (addr, bus, fr_step, vl) \<Rightarrow> t mod fr_step = 0)"

text \<open>The frames a step put on the buses: what \<open>sent\<close> holds after it beyond what it held before.\<close>

definition newly_sent :: "tx_state \<Rightarrow> tx_state \<Rightarrow> (channel \<times> can_msg) list" where
  "newly_sent s s' = drop (length (sent s)) (sent s')"

definition newly_encoded :: "tx_state \<Rightarrow> tx_state \<Rightarrow> (string \<times> rat) list list" where
  "newly_encoded s s' = drop (length (encoded s)) (encoded s')"

text \<open>No send raises.\<close>

definition sends_succeed :: "env \<Rightarrow> bool" where
  "sends_succeed e = (\<forall>t ch m. \<not> send_fails e t ch m)"


text \<open>
  The start of tick \<open>n\<close> under a fixed-rate deadline schedule
  (\<^verbatim>\<open>next_deadline += tick_period\<close> from the entry of the loop at \<open>t0\<close>).
\<close>

definition deadline_start :: "rat \<Rightarrow> nat \<Rightarrow> rat" where
  "deadline_start t0 n = t0 + of_nat n * (1 / 100)"

subsection \<open>Concrete environments\<close>

definition acc_343 :: acc_message_t where
  "acc_343 = \<lparr>frame_id = 0x343, encode = (\<lambda>sig. Some [0, 0, 0x63, 0xc0, 0, 0, 0, 113])\<rparr>"

definition env_quiet :: env where
  "env_quiet = \<lparr>send_fails = (\<lambda>t ch m. False), work_time = (\<lambda>t. 0)\<rparr>"

text \<open>The bus refuses the frame 0x141 (a full transmit queue, a bus that went down).\<close>

definition env_141_fails :: env where
  "env_141_fails =
     \<lparr>send_fails = (\<lambda>t ch m. arbitration_id m = 0x141), work_time = (\<lambda>t. 0)\<rparr>"

text \<open>Every iteration takes a millisecond of work.\<close>

definition env_1ms :: env where
  "env_1ms = \<lparr>send_fails = (\<lambda>t ch m. False), work_time = (\<lambda>t. 1 / 1000)\<rparr>"

section \<open>The cleanup in the \<^verbatim>\<open>finally\<close> clauses\<close>











section \<open>The track cache of the driver\<close>

text \<open>
  Modelled from the spec: the Track Cache of the module \<^verbatim>\<open>toyota_radar_driver\<close>, which
  radar\_callbacks.py and radar\_curses.py import and which is not among the sources. The
  spec: a valid decoded frame upserts the \<^verbatim>\<open>RadarTrack\<close> of its id (distances, relative
  speed, timestamp = now); \<^verbatim>\<open>new_track\<close> is set true exactly when either no prior entry
  existed for that id, or the prior entry's age at this moment exceeds \<^verbatim>\<open>track_timeout\<close>.
\<close>

record RadarTrack =
  track_id :: nat
  long_dist :: rat
  lat_dist :: rat
  rel_speed :: rat
  new_track :: bool
  timestamp :: rat

type_synonym track_cache = "nat \<rightharpoonup> RadarTrack"

definition upsert ::
  "rat \<Rightarrow> rat \<Rightarrow> nat \<Rightarrow> rat \<Rightarrow> rat \<Rightarrow> rat \<Rightarrow> track_cache \<Rightarrow> RadarTrack \<times> track_cache" where
  "upsert track_timeout now X long lat rel cache =
     (let track =
        \<lparr>track_id = X, long_dist = long, lat_dist = lat, rel_speed = rel,
         new_track =
           (case cache X of
              None \<Rightarrow> True
            | Some prior \<Rightarrow> now - timestamp prior > track_timeout),
         timestamp = now\<rparr>
      in (track, cache(X \<mapsto> track)))"

text \<open>
  Modelled from the spec: physical removal of stale entries, which "may happen at read time
  or via a background sweep": an entry is dropped once its age exceeds \<^verbatim>\<open>track_timeout\<close>.
\<close>

definition sweep :: "rat \<Rightarrow> rat \<Rightarrow> track_cache \<Rightarrow> track_cache" where
  "sweep track_timeout now cache =
     (\<lambda>X. case cache X of
             None \<Rightarrow> None
           | Some t \<Rightarrow> if now - timestamp t > track_timeout then None else Some t)"

text \<open>Updates of one id at the given times, oldest first; the flags delivered, in order.\<close>

fun new_track_flags :: "rat \<Rightarrow> nat \<Rightarrow> rat list \<Rightarrow> track_cache \<Rightarrow> bool list" where
  "new_track_flags track_timeout X [] cache = []"
| "new_track_flags track_timeout X (now # later) cache =
     (case upsert track_timeout now X 0 0 0 cache of
        (track, cache') \<Rightarrow> new_track track # new_track_flags track_timeout X later cache')"

section \<open>Concrete inputs for the reception handlers\<close>

text \<open>A database that decodes every frame to a valid track ten metres ahead.\<close>

definition db_valid_10m :: database where
  "db_valid_10m = (\<lambda>i d. Some [''VALID'' \<mapsto> Num 1, ''LONG_DIST'' \<mapsto> Num 10])"

definition logger_zero :: MessageLogger where
  "logger_zero =
     \<lparr>can0_tx = 0, can1_rx = 0, radar_status_msgs = 0, radar_track_msgs = 0,
      valid_tracks = 0, last_4ff_data = None\<rparr>"

definition track_21F :: can_msg where
  "track_21F = \<lparr>arbitration_id = 0x21F, data = [0, 0, 0, 0, 0, 0, 0, 0]\<rparr>"

definition track_21E :: can_msg where
  "track_21E = \<lparr>arbitration_id = 0x21E, data = [0, 0, 0, 0, 0, 0, 0, 0]\<rparr>"

section \<open>Table entries and the frames of a tick\<close>

definition addr_of :: "static_msg \<Rightarrow> nat" where
  "addr_of m = (case m of (addr, ecu, cars, bus, fr_step, vl) \<Rightarrow> addr)"

definition bus_of :: "static_msg \<Rightarrow> nat" where
  "bus_of m = (case m of (addr, ecu, cars, bus, fr_step, vl) \<Rightarrow> bus)"

definition fr_step_of :: "static_msg \<Rightarrow> nat" where
  "fr_step_of m = (case m of (addr, ecu, cars, bus, fr_step, vl) \<Rightarrow> fr_step)"

definition vl_of :: "static_msg \<Rightarrow> byte list" where
  "vl_of m = (case m of (addr, ecu, cars, bus, fr_step, vl) \<Rightarrow> vl)"

definition addr_of_2019 :: "static_msg_2019 \<Rightarrow> nat" where
  "addr_of_2019 m = (case m of (addr, bus, fr_step, vl) \<Rightarrow> addr)"

definition bus_of_2019 :: "static_msg_2019 \<Rightarrow> nat" where
  "bus_of_2019 m = (case m of (addr, bus, fr_step, vl) \<Rightarrow> bus)"

definition fr_step_of_2019 :: "static_msg_2019 \<Rightarrow> nat" where
  "fr_step_of_2019 m = (case m of (addr, bus, fr_step, vl) \<Rightarrow> fr_step)"

text \<open>The frame of an entry with the table's own payload \<^verbatim>\<open>vl\<close>, on the entry's bus.\<close>

definition fixed_frame :: "static_msg \<Rightarrow> channel \<times> can_msg" where
  "fixed_frame m = (can_bus (bus_of m), \<lparr>arbitration_id = addr_of m, data = vl_of m\<rparr>)"

text \<open>The ACC\_CONTROL frame with payload \<open>p\<close>; it always goes to can0.\<close>

definition acc_frame :: "acc_message_t \<Rightarrow> byte list \<Rightarrow> channel \<times> can_msg" where
  "acc_frame acc p = (Can0, \<lparr>arbitration_id = frame_id acc, data = p\<rparr>)"

text \<open>
  What a tick puts on the buses when nothing fails, in order: the ACC\_CONTROL frame, then
  the entries that are due, in table order.
\<close>

definition tick_frames :: "acc_message_t \<Rightarrow> byte list \<Rightarrow> nat \<Rightarrow> (channel \<times> can_msg) list" where
  "tick_frames acc p t = acc_frame acc p # map fixed_frame (filter (due t) STATIC_MSGS)"

definition acc_frames_2019 :: "acc_message_t option \<Rightarrow> (channel \<times> can_msg) list" where
  "acc_frames_2019 acc_message =
     (case acc_message of
        None \<Rightarrow> []
      | Some acc \<Rightarrow> (case encode acc acc_signals of None \<Rightarrow> [] | Some p \<Rightarrow> [acc_frame acc p]))"

definition tick_frames_2019 :: "acc_message_t option \<Rightarrow> nat \<Rightarrow> (channel \<times> can_msg) list" where
  "tick_frames_2019 acc_message t =
     acc_frames_2019 acc_message @ map static_frame_2019 (filter (due_2019 t) STATIC_MSGS_2019)"

text \<open>
  The 2019 script's \<^verbatim>\<open>acc_message\<close>, when there is one, encodes the signal set; and its frame
  id is not \<open>addr\<close>.
\<close>

definition acc_encodes :: "acc_message_t option \<Rightarrow> bool" where
  "acc_encodes acc_message =
     (case acc_message of None \<Rightarrow> True | Some acc \<Rightarrow> encode acc acc_signals \<noteq> None)"

definition acc_id_differs :: "acc_message_t option \<Rightarrow> nat \<Rightarrow> bool" where
  "acc_id_differs acc_message addr =
     (case acc_message of None \<Rightarrow> True | Some acc \<Rightarrow> frame_id acc \<noteq> addr)"

section \<open>Further concrete inputs\<close>

text \<open>The first entry of \<^verbatim>\<open>STATIC_MSGS\<close>, by name.\<close>

definition entry_141 :: static_msg where
  "entry_141 =
     (0x141, DSU, [PRIUS, RAV4H, LEXUS_RXH, RAV4, COROLLA], 1, 2, [0x00, 0x00, 0x00, 0x46])"




text \<open>A cache that holds track 7, last updated at time 0.\<close>

definition seen_at_0 :: track_cache where
  "seen_at_0 =
     [7 \<mapsto> \<lparr>track_id = 7, long_dist = 10, lat_dist = 0, rel_speed = 0, new_track = True,
             timestamp = 0\<rparr>]"

section \<open>Reception: counters and track reports\<close>

lemma can1_rx_step:
  "can1_rx (fst (on_message_received_2019 db m lg)) = can1_rx lg + 1"
  by (simp add: on_message_received_2019_def Let_def split: option.splits)

lemma msg_count_step:
  "msg_count (fst (on_message_received_debug db m st)) = msg_count st + 1"
  by (simp add: on_message_received_debug_def Let_def split: option.splits)

lemma can1_rx_all: "can1_rx (receive_all_2019 db ms lg) = can1_rx lg + length ms"
  by (induction ms arbitrary: lg) (simp_all add: can1_rx_step)

lemma msg_count_all: "msg_count (receive_all_debug db ms st) = msg_count st + length ms"
  by (induction ms arbitrary: st) (simp_all add: msg_count_step)

lemma get_eq_one_valid:
  "db = Some d \<Longrightarrow> d (arbitration_id m) (data m) = Some decoded \<Longrightarrow>
     get_eq_one decoded ''VALID'' = valid_is_1 db m"
  by (simp add: get_eq_one_def valid_is_1_def split: option.split sigval.split)

lemma valid_tracks_step:
  "valid_tracks (fst (on_message_received_2019 db m lg)) =
     valid_tracks lg +
     (if 0x210 \<le> arbitration_id m \<and> arbitration_id m \<le> 0x21F \<and> valid_is_1 db m then 1 else 0)"
proof (cases db)
  case None
  then show ?thesis
    by (simp add: on_message_received_2019_def Let_def valid_is_1_def)
next
  case db: (Some d)
  show ?thesis
  proof (cases "d (arbitration_id m) (data m)")
    case None
    then show ?thesis using db
      by (simp add: on_message_received_2019_def Let_def valid_is_1_def)
  next
    case (Some decoded)
    then show ?thesis using db get_eq_one_valid [OF db Some]
      by (simp add: on_message_received_2019_def Let_def track_window_2019_def)
  qed
qed

lemma reports_step:
  "length (filter is_distance_report (snd (on_message_received_2019 db m lg))) =
     (if 0x210 \<le> arbitration_id m \<and> arbitration_id m \<le> 0x21F \<and> valid_is_1 db m then 1 else 0)"
proof (cases db)
  case None
  then show ?thesis
    by (simp add: on_message_received_2019_def Let_def valid_is_1_def)
next
  case db: (Some d)
  show ?thesis
  proof (cases "d (arbitration_id m) (data m)")
    case None
    then show ?thesis using db
      by (simp add: on_message_received_2019_def Let_def valid_is_1_def)
  next
    case (Some decoded)
    then show ?thesis using db get_eq_one_valid [OF db Some]
      by (simp add: on_message_received_2019_def Let_def track_window_2019_def)
  qed
qed

text \<open>
  C1, at the upper end of the track-id window. The 2019 listener does what C1 asks on
  every frame: its counter \<^verbatim>\<open>valid_tracks\<close> goes up by one, and one distance line is
  printed, exactly when the id lies in 0x210..0x21F and the payload decodes with VALID
  equal to 1; otherwise neither happens. The rpi listener reports a valid track with id
  0x21E, but for the same valid payload with id 0x21F it prints nothing: its window test is
  \<^verbatim>\<open>0x210 <= id < 0x21F\<close>. (The rpi listener keeps no counter; its report reads
  \<^verbatim>\<open>msg["LONG_DIST"]\<close>.)
\<close>

theorem valid_track_0x21F_gets_no_report:
  "0x210 \<le> arbitration_id track_21F \<and> arbitration_id track_21F \<le> 0x21F \<and>
   valid_is_1 (Some db_valid_10m) track_21F \<and>
   on_message_received_rpi (Some db_valid_10m) track_21F = [] \<and>
   on_message_received_rpi (Some db_valid_10m) track_21E = [GotValidTrack (Num 10)] \<and>
   on_message_received_2019 (Some db_valid_10m) track_21F logger_zero =
     (logger_zero\<lparr>can1_rx := 1, radar_track_msgs := 1, valid_tracks := 1\<rparr>,
      [TrackLine 0x21F [0, 0, 0, 0, 0, 0, 0, 0], ValidTrackDistance (Some (Num 10))]) \<and>
   valid_tracks (fst (on_message_received_2019 db m lg)) =
     valid_tracks lg +
     (if 0x210 \<le> arbitration_id m \<and> arbitration_id m \<le> 0x21F \<and> valid_is_1 db m then 1 else 0) \<and>
   length (filter is_distance_report (snd (on_message_received_2019 db m lg))) =
     (if 0x210 \<le> arbitration_id m \<and> arbitration_id m \<le> 0x21F \<and> valid_is_1 db m then 1 else 0)"
proof -
  have w: "0x210 \<le> arbitration_id track_21F \<and> arbitration_id track_21F \<le> 0x21F"
    by (simp add: track_21F_def)
  have a: "valid_is_1 (Some db_valid_10m) track_21F"
    by (simp add: valid_is_1_def db_valid_10m_def)
  have b: "on_message_received_rpi (Some db_valid_10m) track_21F = []"
    by (simp add: on_message_received_rpi_def track_window_rpi_def track_21F_def)
  have c: "on_message_received_rpi (Some db_valid_10m) track_21E = [GotValidTrack (Num 10)]"
    by (simp add: on_message_received_rpi_def track_window_rpi_def track_21E_def db_valid_10m_def)
  have d: "on_message_received_2019 (Some db_valid_10m) track_21F logger_zero =
     (logger_zero\<lparr>can1_rx := 1, radar_track_msgs := 1, valid_tracks := 1\<rparr>,
      [TrackLine 0x21F [0, 0, 0, 0, 0, 0, 0, 0], ValidTrackDistance (Some (Num 10))])"
    by (simp add: on_message_received_2019_def Let_def track_window_2019_def get_eq_one_def
        db_valid_10m_def track_21F_def logger_zero_def)
  show ?thesis using w a b c d valid_tracks_step [of db m lg] reports_step [of db m lg] by blast
qed

text \<open>
  C3. The received-message counter goes up by exactly one for every frame handed to the
  listener, whatever the frame is; after a run it is the initial value plus the number of
  frames observed, and it never goes down as more frames arrive. (\<^verbatim>\<open>logger.can1_rx\<close> in the
  2019 script, \<^verbatim>\<open>self.msg_count\<close> in the debug script.)
\<close>

theorem message_count_counts_every_frame:
  "can1_rx (fst (on_message_received_2019 db m lg)) = can1_rx lg + 1 \<and>
   msg_count (fst (on_message_received_debug db m st)) = msg_count st + 1 \<and>
   can1_rx (receive_all_2019 db ms lg) = can1_rx lg + length ms \<and>
   msg_count (receive_all_debug db ms st) = msg_count st + length ms \<and>
   can1_rx (receive_all_2019 db ms lg) \<le> can1_rx (receive_all_2019 db (ms @ ms2) lg) \<and>
   msg_count (receive_all_debug db ms st) \<le> msg_count (receive_all_debug db (ms @ ms2) st)"
  by (simp add: can1_rx_step msg_count_step can1_rx_all msg_count_all)

text \<open>
  C9. The listeners do not share one window: the rpi listener tests
  \<^verbatim>\<open>0x210 <= id < 0x21F\<close>, the 2019 and debug listeners \<^verbatim>\<open>0x210 <= id <= 0x21F\<close>. They
  differ at 0x21F and nowhere else: a valid track frame with id 0x21F is counted by the
  2019 listener and dropped without a report by the rpi listener.
\<close>

theorem rpi_window_drops_0x21F:
  "track_window_rpi i = (track_window_2019 i \<and> i \<noteq> 0x21F) \<and>
   track_window_debug i = track_window_2019 i \<and>
   track_window_2019 0x21F \<and> track_window_debug 0x21F \<and> \<not> track_window_rpi 0x21F \<and>
   on_message_received_rpi (Some db_valid_10m) track_21F = [] \<and>
   valid_tracks (fst (on_message_received_2019 (Some db_valid_10m) track_21F logger_zero)) = 1"
  by (auto simp add: track_window_rpi_def track_window_2019_def track_window_debug_def
      on_message_received_rpi_def on_message_received_2019_def Let_def get_eq_one_def
      db_valid_10m_def track_21F_def logger_zero_def)

section \<open>Transmission: the loops when nothing fails\<close>

lemma and_then_Normal [simp]: "and_then (Normal, s) k = k s"
  by (simp add: and_then_def)

lemma and_then_Raised [simp]: "and_then (Raised x, s) k = (Raised x, s)"
  by (simp add: and_then_def)

lemma bus_send_ok: "sends_succeed e \<Longrightarrow> bus_send e ch m s = (Normal, s\<lparr>sent := sent s @ [(ch, m)]\<rparr>)"
  by (simp add: bus_send_def sends_succeed_def)

lemma bus_send_cases:
  "bus_send e ch m s = (Raised CanError, s) \<and> send_fails e (frame s) ch m \<or>
   bus_send e ch m s = (Normal, s\<lparr>sent := sent s @ [(ch, m)]\<rparr>) \<and> \<not> send_fails e (frame s) ch m"
  by (simp add: bus_send_def)

lemma static_loop_ok:
  assumes "sends_succeed e"
  shows "(\<forall>m \<in> set tbl. fst (snd (snd (snd (snd m)))) \<noteq> 0) \<Longrightarrow>
     static_loop e c tbl s =
       (Normal, s\<lparr>sent := sent s @ map (static_frame (frame s)) (filter (due (frame s)) tbl),
                  tx_count := tx_count s + (if c then length (filter (due (frame s)) tbl) else 0)\<rparr>)"
proof (induction tbl arbitrary: s)
  case Nil
  then show ?case by simp
next
  case (Cons m tbl)
  obtain addr ecu cars bus fr_step vl where m: "m = (addr, ecu, cars, bus, fr_step, vl)"
    by (cases m) auto
  from Cons.prems have nz: "fr_step \<noteq> 0" and rest: "\<forall>m \<in> set tbl. fst (snd (snd (snd (snd m)))) \<noteq> 0"
    by (auto simp: m)
  show ?case
  proof (cases "frame s mod fr_step = 0")
    case True
    then show ?thesis
      using nz Cons.IH [OF rest] 
      by (simp add: m bus_send_ok [OF assms] due_def static_frame_def)
  next
    case False
    then show ?thesis
      using nz Cons.IH [OF rest] by (simp add: m due_def)
  qed
qed

lemma STATIC_MSGS_addrs:
  "m \<in> set STATIC_MSGS \<Longrightarrow> addr_of m \<noteq> 0x489 \<and> addr_of m \<noteq> 0x48a"
  by (auto simp add: STATIC_MSGS_def addr_of_def)

lemma STATIC_MSGS_steps: "m \<in> set STATIC_MSGS \<Longrightarrow> fr_step_of m \<noteq> 0"
  by (auto simp add: STATIC_MSGS_def fr_step_of_def)

lemma STATIC_MSGS_distinct: "distinct (map addr_of STATIC_MSGS)"
  by (simp add: STATIC_MSGS_def addr_of_def)

lemma tosend_fixed:
  "addr_of m \<noteq> 0x489 \<and> addr_of m \<noteq> 0x48a \<Longrightarrow> tosend t m = vl_of m"
  by (cases m) (simp add: tosend_def addr_of_def vl_of_def)

lemma static_frame_fixed:
  "m \<in> set STATIC_MSGS \<Longrightarrow> static_frame t m = fixed_frame m"
  using tosend_fixed [OF STATIC_MSGS_addrs, of m t]
  by (cases m) (simp add: static_frame_def fixed_frame_def bus_of_def addr_of_def vl_of_def)

lemma count_due:
  "distinct (map addr_of tbl) \<Longrightarrow> m \<in> set tbl \<Longrightarrow>
   count_list (map fixed_frame (filter p tbl)) (fixed_frame m) = (if p m then 1 else 0)"
proof (induction tbl)
  case Nil
  then show ?case by simp
next
  case (Cons a tbl)
  show ?case
  proof (cases "a = m")
    case True
    from Cons.prems have "addr_of m \<notin> addr_of ` set tbl" using True by simp
    then have "\<forall>b \<in> set tbl. fixed_frame b \<noteq> fixed_frame m"
      by (metis (no_types, lifting) can_msg.select_convs(1) fixed_frame_def image_eqI snd_conv)
    then have "count_list (map fixed_frame (filter p tbl)) (fixed_frame m) = 0"
      by (auto simp add: count_list_0_iff)
    then show ?thesis using True by simp
  next
    case False
    with Cons.prems have m: "m \<in> set tbl" and d: "distinct (map addr_of tbl)"
      and "addr_of a \<noteq> addr_of m" by auto
    then have "fixed_frame a \<noteq> fixed_frame m" by (simp add: fixed_frame_def)
    then show ?thesis using Cons.IH [OF d m] by simp
  qed
qed

lemma count_multiples:
  "0 < P \<Longrightarrow> (\<Sum>t\<leftarrow>[0..<Suc N]. if t mod P = 0 then 1 else 0) = N div P + (1::nat)"
proof (induction N)
  case 0
  then show ?case by simp
next
  case (Suc N)
  then show ?case by (simp add: div_Suc)
qed

lemma STATIC_MSGS_nz: "\<forall>m \<in> set STATIC_MSGS. fst (snd (snd (snd (snd m)))) \<noteq> 0"
  by (simp add: STATIC_MSGS_def)

lemma map_static_frame_fixed:
  "map (static_frame t) (filter p STATIC_MSGS) = map fixed_frame (filter p STATIC_MSGS)"
  by (rule map_cong) (simp_all add: static_frame_fixed)

lemma tick_ok:
  assumes ok: "sends_succeed e" and enc: "encode acc acc_signals = Some p"
  shows "\<exists>s'. tick e c acc s = (Normal, s') \<and> frame s' = frame s + 1 \<and>
           clock s' = clock s + work_time e (frame s) + 1 / 100 \<and>
           sent s' = sent s @ tick_frames acc p (frame s) \<and>
           encoded s' = encoded s @ [acc_signals] \<and>
           tx_count s' = tx_count s + (if c then length (tick_frames acc p (frame s)) else 0)"
  by (simp add: tick_def acc_encode_def enc bus_send_ok [OF ok]
      static_loop_ok [OF ok STATIC_MSGS_nz] next_frame_def tick_frames_def acc_frame_def
      map_static_frame_fixed)

lemma iterate_ok:
  assumes ok: "sends_succeed e" and enc: "encode acc acc_signals = Some p"
  shows "\<exists>s'. iterate (tick e c acc) n s = (Normal, s') \<and> frame s' = frame s + n \<and>
           clock s' = clock s + (\<Sum>t\<leftarrow>[frame s..<frame s + n]. work_time e t + 1 / 100) \<and>
           sent s' = sent s @ concat (map (tick_frames acc p) [frame s..<frame s + n]) \<and>
           encoded s' = encoded s @ replicate n acc_signals"
proof (induction n arbitrary: s)
  case 0
  then show ?case by simp
next
  case (Suc n)
  from tick_ok [OF ok enc, of c s] obtain s1 where
    t: "tick e c acc s = (Normal, s1)" and f: "frame s1 = frame s + 1"
    and c: "clock s1 = clock s + work_time e (frame s) + 1 / 100"
    and se: "sent s1 = sent s @ tick_frames acc p (frame s)"
    and en: "encoded s1 = encoded s @ [acc_signals]" by blast
  from Suc.IH [of s1] obtain s' where
    i: "iterate (tick e c acc) n s1 = (Normal, s')" and f': "frame s' = frame s1 + n"
    and c': "clock s' = clock s1 + (\<Sum>t\<leftarrow>[frame s1..<frame s1 + n]. work_time e t + 1 / 100)"
    and se': "sent s' = sent s1 @ concat (map (tick_frames acc p) [frame s1..<frame s1 + n])"
    and en': "encoded s' = encoded s1 @ replicate n acc_signals" by blast
  have u: "[frame s..<frame s + Suc n] = frame s # [frame s1..<frame s1 + n]"
    by (simp add: f upt_conv_Cons)
  have "iterate (tick e c acc) (Suc n) s = (Normal, s')" by (simp add: t i)
  moreover have "frame s' = frame s + Suc n" by (simp add: f f')
  moreover have "clock s' = clock s + (\<Sum>t\<leftarrow>[frame s..<frame s + Suc n]. work_time e t + 1 / 100)"
    unfolding u by (simp add: c c')
  moreover have "sent s' = sent s @ concat (map (tick_frames acc p) [frame s..<frame s + Suc n])"
    unfolding u by (simp add: se se')
  moreover have "encoded s' = encoded s @ replicate (Suc n) acc_signals"
    by (simp add: en en' replicate_append_same)
  ultimately show ?case by blast
qed

lemma count_tick_frames:
  assumes "m \<in> set STATIC_MSGS" and "frame_id acc \<noteq> addr_of m"
  shows "count_list (tick_frames acc p t) (fixed_frame m) = (if t mod fr_step_of m = 0 then 1 else 0)"
proof -
  have "acc_frame acc p \<noteq> fixed_frame m"
    using assms(2) by (auto simp add: acc_frame_def fixed_frame_def)
  moreover have "due t m = (t mod fr_step_of m = 0)"
    by (cases m) (simp add: due_def fr_step_of_def)
  ultimately show ?thesis
    using count_due [OF STATIC_MSGS_distinct assms(1), of "due t"]
    by (simp add: tick_frames_def)
qed

lemma count_concat:
  "count_list (concat (map f ts)) x = (\<Sum>t\<leftarrow>ts. count_list (f t) x)"
  by (induction ts) simp_all

lemma count_run:
  assumes "m \<in> set STATIC_MSGS" and "frame_id acc \<noteq> addr_of m"
  shows "count_list (concat (map (tick_frames acc p) [0..<Suc N])) (fixed_frame m) = N div fr_step_of m + 1"
proof -
  have "0 < fr_step_of m" using STATIC_MSGS_steps [OF assms(1)] by simp
  from count_multiples [OF this, of N] show ?thesis
    by (simp only: count_concat count_tick_frames [OF assms])
qed

lemma static_loop_inv:
  "static_loop e c tbl s = (r, s') \<Longrightarrow>
     frame s' = frame s \<and> clock s' = clock s \<and> encoded s' = encoded s \<and>
     (\<exists>new. sent s' = sent s @ new \<and>
        set new \<subseteq> static_frame (frame s) ` {m \<in> set tbl. due (frame s) m} \<and>
        tx_count s' = tx_count s + (if c then length new else 0))"
proof (induction tbl arbitrary: s)
  case Nil
  then show ?case by simp
next
  case (Cons m tbl)
  obtain addr ecu cars bus fr_step vl where m: "m = (addr, ecu, cars, bus, fr_step, vl)"
    by (cases m) auto
  show ?case
  proof (cases "fr_step = 0")
    case True
    with Cons.prems show ?thesis by (simp add: m)
  next
    case nz: False
    show ?thesis
    proof (cases "frame s mod fr_step = 0")
      case False
      with nz Cons.prems have "static_loop e c tbl s = (r, s')" by (simp add: m)
      from Cons.IH [OF this] obtain new where
        a: "frame s' = frame s" "clock s' = clock s" "encoded s' = encoded s"
        and n: "sent s' = sent s @ new"
        and sub: "set new \<subseteq> static_frame (frame s) ` {m \<in> set tbl. due (frame s) m}"
        and tx: "tx_count s' = tx_count s + (if c then length new else 0)" by blast
      have "set new \<subseteq> static_frame (frame s) ` {m' \<in> set (m # tbl). due (frame s) m'}"
        using sub by auto
      then show ?thesis using a n tx by blast
    next
      case d: True
      let ?ch = "can_bus bus"
      let ?msg = "\<lparr>arbitration_id = addr, data = tosend (frame s) (addr, ecu, cars, bus, fr_step, vl)\<rparr>"
      let ?f = "(?ch, ?msg)"
      have f: "static_frame (frame s) m = ?f"
        by (simp add: static_frame_def m)
      have dm: "due (frame s) m" using d by (simp add: due_def m)
      show ?thesis
      proof (cases "send_fails e (frame s) ?ch ?msg")
        case True
        then have "static_loop e c (m # tbl) s = (Raised CanError, s)"
          using nz d by (simp add: m bus_send_def)
        with Cons.prems show ?thesis by simp
      next
        case False
        let ?s1 = "s\<lparr>sent := sent s @ [?f]\<rparr>"
        let ?s2 = "if c then ?s1\<lparr>tx_count := tx_count ?s1 + 1\<rparr> else ?s1"
        have "static_loop e c (m # tbl) s = static_loop e c tbl ?s2"
          using False nz d by (simp add: m bus_send_def)
        with Cons.prems have "static_loop e c tbl ?s2 = (r, s')" by simp
        from Cons.IH [OF this] obtain new where
          a: "frame s' = frame ?s2" "clock s' = clock ?s2" "encoded s' = encoded ?s2"
          and n: "sent s' = sent ?s2 @ new"
          and sub: "set new \<subseteq> static_frame (frame ?s2) ` {m \<in> set tbl. due (frame ?s2) m}"
          and tx: "tx_count s' = tx_count ?s2 + (if c then length new else 0)" by blast
        have fr: "frame ?s2 = frame s" by simp
        have "sent s' = sent s @ (?f # new)" using n by simp
        moreover have "set (?f # new) \<subseteq> static_frame (frame s) ` {m' \<in> set (m # tbl). due (frame s) m'}"
        proof -
          have "?f \<in> static_frame (frame s) ` {m' \<in> set (m # tbl). due (frame s) m'}"
            using dm f [symmetric] by (intro image_eqI [of _ _ m]) simp_all
          moreover have "set new \<subseteq> static_frame (frame s) ` {m' \<in> set (m # tbl). due (frame s) m'}"
            using sub unfolding fr by auto
          ultimately show ?thesis by simp
        qed
        moreover have "tx_count s' = tx_count s + (if c then length (?f # new) else 0)"
          using tx by simp
        ultimately show ?thesis using a by (intro conjI exI [of _ "?f # new"]) simp_all
      qed
    qed
  qed
qed





lemma STATIC_MSGS_2019_steps: "m \<in> set STATIC_MSGS_2019 \<Longrightarrow> fr_step_of_2019 m \<noteq> 0"
  by (auto simp add: STATIC_MSGS_2019_def fr_step_of_2019_def)

lemma STATIC_MSGS_2019_nz: "\<forall>m \<in> set STATIC_MSGS_2019. fst (snd (snd m)) \<noteq> 0"
  by (simp add: STATIC_MSGS_2019_def)

lemma STATIC_MSGS_2019_distinct: "distinct (map addr_of_2019 STATIC_MSGS_2019)"
  by (simp add: STATIC_MSGS_2019_def addr_of_2019_def)

lemma static_loop_2019_ok:
  assumes "sends_succeed e"
  shows "(\<forall>m \<in> set tbl. fst (snd (snd m)) \<noteq> 0) \<Longrightarrow>
     \<exists>s'. static_loop_2019 e tbl s = (Normal, s') \<and> frame s' = frame s \<and> clock s' = clock s \<and>
       encoded s' = encoded s \<and>
       sent s' = sent s @ map static_frame_2019 (filter (due_2019 (frame s)) tbl)"
proof (induction tbl arbitrary: s)
  case Nil
  then show ?case by simp
next
  case (Cons m tbl)
  obtain addr bus fr_step vl where m: "m = (addr, bus, fr_step, vl)"
    by (cases m) auto
  from Cons.prems have nz: "fr_step \<noteq> 0" and rest: "\<forall>m \<in> set tbl. fst (snd (snd m)) \<noteq> 0"
    by (auto simp: m)
  show ?case
  proof (cases "frame s mod fr_step = 0")
    case True
    let ?s1 = "s\<lparr>sent := sent s @ [(can_bus bus, \<lparr>arbitration_id = addr, data = vl\<rparr>)]\<rparr>"
    let ?s2 = "if bus = 0 then ?s1\<lparr>tx_count := tx_count ?s1 + 1\<rparr> else ?s1"
    have eq: "static_loop_2019 e (m # tbl) s = static_loop_2019 e tbl ?s2"
      using True nz by (simp add: m bus_send_ok [OF assms])
    from Cons.IH [OF rest, of ?s2] obtain s' where
      "static_loop_2019 e tbl ?s2 = (Normal, s')" "frame s' = frame ?s2" "clock s' = clock ?s2"
      "encoded s' = encoded ?s2"
      "sent s' = sent ?s2 @ map static_frame_2019 (filter (due_2019 (frame ?s2)) tbl)" by blast
    moreover have "frame ?s2 = frame s" "clock ?s2 = clock s" "encoded ?s2 = encoded s"
      "sent ?s2 = sent s @ [static_frame_2019 m]"
      by (simp_all add: m static_frame_2019_def)
    moreover have "due_2019 (frame s) m" using True by (simp add: m due_2019_def)
    ultimately show ?thesis unfolding eq by simp
  next
    case False
    then have nd: "\<not> due_2019 (frame s) m" by (simp add: m due_2019_def)
    have "static_loop_2019 e (m # tbl) s = static_loop_2019 e tbl s"
      using False nz by (simp add: m)
    then show ?thesis using nd Cons.IH [OF rest, of s] by simp
  qed
qed



lemma tick_2019_ok:
  assumes ok: "sends_succeed e" and enc: "acc_encodes acc_message"
  shows "\<exists>s'. tick_2019 e acc_message s = (Normal, s') \<and> frame s' = frame s + 1 \<and>
           clock s' = clock s + work_time e (frame s) + 1 / 100 \<and>
           sent s' = sent s @ tick_frames_2019 acc_message (frame s)"
proof -
  have step: "\<And>s1::tx_state. frame s1 = frame s \<Longrightarrow> clock s1 = clock s \<Longrightarrow>
      \<exists>s'. and_then (static_loop_2019 e STATIC_MSGS_2019 s1) (\<lambda>s. (Normal, next_frame e s)) = (Normal, s') \<and>
         frame s' = frame s + 1 \<and> clock s' = clock s + work_time e (frame s) + 1 / 100 \<and>
         sent s' = sent s1 @ map static_frame_2019 (filter (due_2019 (frame s)) STATIC_MSGS_2019)"
  proof -
    fix s1 :: tx_state
    assume f: "frame s1 = frame s" and c: "clock s1 = clock s"
    from static_loop_2019_ok [OF ok STATIC_MSGS_2019_nz, of s1] obtain s2 where
      "static_loop_2019 e STATIC_MSGS_2019 s1 = (Normal, s2)" "frame s2 = frame s1"
      "clock s2 = clock s1"
      "sent s2 = sent s1 @ map static_frame_2019 (filter (due_2019 (frame s1)) STATIC_MSGS_2019)"
      by blast
    then show "\<exists>s'. and_then (static_loop_2019 e STATIC_MSGS_2019 s1) (\<lambda>s. (Normal, next_frame e s)) = (Normal, s') \<and>
         frame s' = frame s + 1 \<and> clock s' = clock s + work_time e (frame s) + 1 / 100 \<and>
         sent s' = sent s1 @ map static_frame_2019 (filter (due_2019 (frame s)) STATIC_MSGS_2019)"
      using f c by (simp add: next_frame_def)
  qed
  show ?thesis
  proof (cases acc_message)
    case None
    from step [of s] show ?thesis
      by (simp add: None tick_2019_def tick_frames_2019_def acc_frames_2019_def)
  next
    case (Some acc)
    with enc obtain p where p: "encode acc acc_signals = Some p"
      by (auto simp add: acc_encodes_def)
    let ?s1 = "s\<lparr>encoded := encoded s @ [acc_signals],
                 sent := sent s @ [(Can0, \<lparr>arbitration_id = frame_id acc, data = p\<rparr>)],
                 tx_count := tx_count s + 1\<rparr>"
    have t: "tick_2019 e acc_message s =
        and_then (static_loop_2019 e STATIC_MSGS_2019 ?s1) (\<lambda>s. (Normal, next_frame e s))"
      by (simp add: Some tick_2019_def acc_encode_def p bus_send_ok [OF ok])
    from step [of ?s1] show ?thesis unfolding t
      by (simp add: Some tick_frames_2019_def acc_frames_2019_def p acc_frame_def)
  qed
qed

lemma iterate_2019_ok:
  assumes ok: "sends_succeed e" and enc: "acc_encodes acc_message"
  shows "\<exists>s'. iterate (tick_2019 e acc_message) n s = (Normal, s') \<and> frame s' = frame s + n \<and>
           clock s' = clock s + (\<Sum>t\<leftarrow>[frame s..<frame s + n]. work_time e t + 1 / 100) \<and>
           sent s' = sent s @ concat (map (tick_frames_2019 acc_message) [frame s..<frame s + n])"
proof (induction n arbitrary: s)
  case 0
  then show ?case by simp
next
  case (Suc n)
  from tick_2019_ok [OF ok enc, of s] obtain s1 where
    t: "tick_2019 e acc_message s = (Normal, s1)" and f: "frame s1 = frame s + 1"
    and c: "clock s1 = clock s + work_time e (frame s) + 1 / 100"
    and se: "sent s1 = sent s @ tick_frames_2019 acc_message (frame s)" by blast
  from Suc.IH [of s1] obtain s' where
    i: "iterate (tick_2019 e acc_message) n s1 = (Normal, s')" and f': "frame s' = frame s1 + n"
    and c': "clock s' = clock s1 + (\<Sum>t\<leftarrow>[frame s1..<frame s1 + n]. work_time e t + 1 / 100)"
    and se': "sent s' = sent s1 @ concat (map (tick_frames_2019 acc_message) [frame s1..<frame s1 + n])"
    by blast
  have u: "[frame s..<frame s + Suc n] = frame s # [frame s1..<frame s1 + n]"
    by (simp add: f upt_conv_Cons)
  have "iterate (tick_2019 e acc_message) (Suc n) s = (Normal, s')" by (simp add: t i)
  moreover have "frame s' = frame s + Suc n" by (simp add: f f')
  moreover have "clock s' = clock s + (\<Sum>t\<leftarrow>[frame s..<frame s + Suc n]. work_time e t + 1 / 100)"
    unfolding u by (simp add: c c')
  moreover have "sent s' = sent s @ concat (map (tick_frames_2019 acc_message) [frame s..<frame s + Suc n])"
    unfolding u by (simp add: se se')
  ultimately show ?case by blast
qed

lemma count_due_2019:
  "distinct (map addr_of_2019 tbl) \<Longrightarrow> m \<in> set tbl \<Longrightarrow>
   count_list (map static_frame_2019 (filter p tbl)) (static_frame_2019 m) = (if p m then 1 else 0)"
proof (induction tbl)
  case Nil
  then show ?case by simp
next
  case (Cons a tbl)
  have neq: "\<And>b. addr_of_2019 b \<noteq> addr_of_2019 m \<Longrightarrow> static_frame_2019 b \<noteq> static_frame_2019 m"
    by (auto simp add: static_frame_2019_def addr_of_2019_def split: prod.splits)
  show ?case
  proof (cases "a = m")
    case True
    from Cons.prems have "addr_of_2019 m \<notin> addr_of_2019 ` set tbl" using True by simp
    then have "\<forall>b \<in> set tbl. static_frame_2019 b \<noteq> static_frame_2019 m"
      using neq by (metis image_eqI)
    then have "count_list (map static_frame_2019 (filter p tbl)) (static_frame_2019 m) = 0"
      by (auto simp add: count_list_0_iff)
    then show ?thesis using True by simp
  next
    case False
    with Cons.prems have m: "m \<in> set tbl" and d: "distinct (map addr_of_2019 tbl)"
      and "addr_of_2019 a \<noteq> addr_of_2019 m" by auto
    then have "static_frame_2019 a \<noteq> static_frame_2019 m" using neq by blast
    then show ?thesis using Cons.IH [OF d m] by simp
  qed
qed

lemma count_tick_frames_2019:
  assumes "m \<in> set STATIC_MSGS_2019" and "acc_id_differs acc_message (addr_of_2019 m)"
  shows "count_list (tick_frames_2019 acc_message t) (static_frame_2019 m) =
           (if t mod fr_step_of_2019 m = 0 then 1 else 0)"
proof -
  have "count_list (acc_frames_2019 acc_message) (static_frame_2019 m) = 0"
    using assms(2)
    by (auto simp add: acc_frames_2019_def acc_id_differs_def acc_frame_def static_frame_2019_def
        addr_of_2019_def split: option.splits prod.splits)
  moreover have "due_2019 t m = (t mod fr_step_of_2019 m = 0)"
    by (cases m) (simp add: due_2019_def fr_step_of_2019_def)
  ultimately show ?thesis
    using count_due_2019 [OF STATIC_MSGS_2019_distinct assms(1), of "due_2019 t"]
    by (simp add: tick_frames_2019_def)
qed

lemma count_run_2019:
  assumes "m \<in> set STATIC_MSGS_2019" and "acc_id_differs acc_message (addr_of_2019 m)"
  shows "count_list (concat (map (tick_frames_2019 acc_message) [0..<Suc N])) (static_frame_2019 m) =
           N div fr_step_of_2019 m + 1"
proof -
  have "0 < fr_step_of_2019 m" using STATIC_MSGS_2019_steps [OF assms(1)] by simp
  from count_multiples [OF this, of N] show ?thesis
    by (simp only: count_concat count_tick_frames_2019 [OF assms])
qed

lemma newly_sent_append: "sent s' = sent s @ new \<Longrightarrow> newly_sent s s' = new"
  by (simp add: newly_sent_def)

lemma newly_encoded_append: "encoded s' = encoded s @ new \<Longrightarrow> newly_encoded s s' = new"
  by (simp add: newly_encoded_def)

lemma member_count: "count_list xs x = (if P then 1 else 0) \<Longrightarrow> (x \<in> set xs) = P"
proof (cases P)
  case True
  assume "count_list xs x = (if P then 1 else 0)"
  with True have "count_list xs x \<noteq> 0" by simp
  then have "x \<in> set xs" using count_list_0_iff [of xs x] by simp
  with True show ?thesis by simp
next
  case False
  assume "count_list xs x = (if P then 1 else 0)"
  with False have "count_list xs x = 0" by simp
  then have "x \<notin> set xs" using count_list_0_iff [of xs x] by simp
  with False show ?thesis by simp
qed

lemma fires_rpi:
  assumes ok: "sends_succeed e" and enc: "encode acc acc_signals = Some p"
    and m: "m \<in> set STATIC_MSGS" and ne: "frame_id acc \<noteq> addr_of m"
  shows "(fixed_frame m \<in> set (newly_sent s (snd (tick_rpi e acc s)))) = (frame s mod fr_step_of m = 0)"
    and "count_list (sent (snd (main_loop_rpi e acc (Suc N) (loop_entry t0)))) (fixed_frame m) =
           N div fr_step_of m + 1"
proof -
  from tick_ok [OF ok enc, of False s] obtain s' where
    "tick e False acc s = (Normal, s')" "sent s' = sent s @ tick_frames acc p (frame s)" by blast
  then have "newly_sent s (snd (tick_rpi e acc s)) = tick_frames acc p (frame s)"
    by (simp add: tick_rpi_def newly_sent_def)
  then show "(fixed_frame m \<in> set (newly_sent s (snd (tick_rpi e acc s)))) = (frame s mod fr_step_of m = 0)"
    using member_count [OF count_tick_frames [OF m ne, of p "frame s"]] by simp
  from iterate_ok [OF ok enc, of False "Suc N" "loop_entry t0"] obtain s'' where
    "iterate (tick e False acc) (Suc N) (loop_entry t0) = (Normal, s'')"
    "sent s'' = sent (loop_entry t0) @
       concat (map (tick_frames acc p) [frame (loop_entry t0)..<frame (loop_entry t0) + Suc N])"
    by blast
  then have "sent (snd (main_loop_rpi e acc (Suc N) (loop_entry t0))) =
      concat (map (tick_frames acc p) [0..<Suc N])"
    by (simp add: main_loop_rpi_def tick_rpi_def loop_entry_def)
  then show "count_list (sent (snd (main_loop_rpi e acc (Suc N) (loop_entry t0)))) (fixed_frame m) =
           N div fr_step_of m + 1"
    using count_run [OF m ne, of p N] by simp
qed

lemma fires_2019:
  assumes ok: "sends_succeed e" and enc: "acc_encodes acc_message"
    and m: "m \<in> set STATIC_MSGS_2019" and ne: "acc_id_differs acc_message (addr_of_2019 m)"
  shows "(static_frame_2019 m \<in> set (newly_sent s (snd (tick_2019 e acc_message s)))) =
           (frame s mod fr_step_of_2019 m = 0)"
    and "count_list (sent (snd (main_loop_2019 e acc_message (Suc N) (loop_entry t0))))
           (static_frame_2019 m) = N div fr_step_of_2019 m + 1"
proof -
  from tick_2019_ok [OF ok enc, of s] obtain s' where
    "tick_2019 e acc_message s = (Normal, s')"
    "sent s' = sent s @ tick_frames_2019 acc_message (frame s)" by blast
  then have "newly_sent s (snd (tick_2019 e acc_message s)) = tick_frames_2019 acc_message (frame s)"
    by (simp add: newly_sent_def)
  then show "(static_frame_2019 m \<in> set (newly_sent s (snd (tick_2019 e acc_message s)))) =
           (frame s mod fr_step_of_2019 m = 0)"
    using member_count [OF count_tick_frames_2019 [OF m ne, of "frame s"]] by simp
  from iterate_2019_ok [OF ok enc, of "Suc N" "loop_entry t0"] obtain s'' where
    "iterate (tick_2019 e acc_message) (Suc N) (loop_entry t0) = (Normal, s'')"
    "sent s'' = sent (loop_entry t0) @
       concat (map (tick_frames_2019 acc_message)
         [frame (loop_entry t0)..<frame (loop_entry t0) + Suc N])"
    by blast
  then have "sent (snd (main_loop_2019 e acc_message (Suc N) (loop_entry t0))) =
      concat (map (tick_frames_2019 acc_message) [0..<Suc N])"
    by (simp add: main_loop_2019_def loop_entry_def)
  then show "count_list (sent (snd (main_loop_2019 e acc_message (Suc N) (loop_entry t0))))
           (static_frame_2019 m) = N div fr_step_of_2019 m + 1"
    using count_run_2019 [OF m ne, of N] by simp
qed

text \<open>
  C2, as the code has it. While no send and no encode raises, an entry
  \<^verbatim>\<open>(addr, ..., bus, fr_step, vl)\<close> of the static table has its frame sent on the tick with
  counter \<open>frame\<close> exactly when \<open>frame mod fr_step = 0\<close>, on can0 when \<open>bus\<close> is 0 and on
  can1 otherwise; and over the ticks 0..N of a main loop entered with \<^verbatim>\<open>frame = 0\<close> it is
  sent exactly \<open>N div fr_step + 1\<close> times. Stated for the loops of toyota\_radar\_rpi.py
  (\<^verbatim>\<open>STATIC_MSGS\<close>) and toyota\_radar\_2019.py (\<^verbatim>\<open>STATIC_MSGS_2019\<close>). Frames are told
  apart by channel, id and payload; the id of the ACC\_CONTROL frame is taken to differ from
  the entry's.
\<close>

theorem static_frame_fires_every_period:
  assumes "sends_succeed e"
    and "encode acc acc_signals = Some p"
    and "(addr, ecu, cars, bus, fr_step, vl) \<in> set STATIC_MSGS"
    and "frame_id acc \<noteq> addr"
    and "acc_encodes acc_message"
    and "(addr', bus', fr_step', vl') \<in> set STATIC_MSGS_2019"
    and "acc_id_differs acc_message addr'"
  shows "(((if bus = 0 then Can0 else Can1, \<lparr>arbitration_id = addr, data = vl\<rparr>)
             \<in> set (newly_sent s (snd (tick_rpi e acc s)))) =
           (frame s mod fr_step = 0)) \<and>
         count_list (sent (snd (main_loop_rpi e acc (Suc N) (loop_entry t0))))
           (if bus = 0 then Can0 else Can1, \<lparr>arbitration_id = addr, data = vl\<rparr>) =
           N div fr_step + 1 \<and>
         (((if bus' = 0 then Can0 else Can1, \<lparr>arbitration_id = addr', data = vl'\<rparr>)
             \<in> set (newly_sent s (snd (tick_2019 e acc_message s)))) =
           (frame s mod fr_step' = 0)) \<and>
         count_list (sent (snd (main_loop_2019 e acc_message (Suc N) (loop_entry t0))))
           (if bus' = 0 then Can0 else Can1, \<lparr>arbitration_id = addr', data = vl'\<rparr>) =
           N div fr_step' + 1"
proof -
  let ?m = "(addr, ecu, cars, bus, fr_step, vl)"
  let ?m' = "(addr', bus', fr_step', vl')"
  have f: "fixed_frame ?m = (if bus = 0 then Can0 else Can1, \<lparr>arbitration_id = addr, data = vl\<rparr>)"
    "fr_step_of ?m = fr_step" "addr_of ?m = addr"
    by (simp_all add: fixed_frame_def can_bus_def bus_of_def addr_of_def vl_of_def fr_step_of_def)
  have f': "static_frame_2019 ?m' =
      (if bus' = 0 then Can0 else Can1, \<lparr>arbitration_id = addr', data = vl'\<rparr>)"
    "fr_step_of_2019 ?m' = fr_step'" "addr_of_2019 ?m' = addr'"
    by (simp_all add: static_frame_2019_def can_bus_def addr_of_2019_def fr_step_of_2019_def)
  have ne: "frame_id acc \<noteq> addr_of ?m" using assms(4) by (simp add: f)
  have ne': "acc_id_differs acc_message (addr_of_2019 ?m')" using assms(7) by (simp add: f')
  note r = fires_rpi [OF assms(1) assms(2) assms(3) ne, unfolded f]
  note r' = fires_2019 [OF assms(1) assms(5) assms(6) ne', unfolded f']
  show ?thesis
    by (intro conjI) (rule r r')+
qed

text \<open>
  The theorem at the quiet environment: 0x141 (bus 1, period 2) goes out on can1 on tick 0
  and six times over the ticks 0..10; 0x4CB of the 2019 table (bus 0, period 100) goes out
  on can0 on tick 0 and three times over the ticks 0..250.
\<close>

theorem static_frame_fires_every_period_witness:
  "sends_succeed env_quiet \<and>
   (0x141, DSU, [PRIUS, RAV4H, LEXUS_RXH, RAV4, COROLLA], 1, 2, [0x00, 0x00, 0x00, 0x46])
     \<in> set STATIC_MSGS \<and>
   (0x4CB, 0, 100, [0x0c, 0x00, 0x00, 0x00, 0x00, 0x00, 0x00, 0x00]) \<in> set STATIC_MSGS_2019 \<and>
   (Can1, \<lparr>arbitration_id = 0x141, data = [0x00, 0x00, 0x00, 0x46]\<rparr>)
     \<in> set (newly_sent (loop_entry 0) (snd (tick_rpi env_quiet acc_343 (loop_entry 0)))) \<and>
   count_list (sent (snd (main_loop_rpi env_quiet acc_343 (Suc 10) (loop_entry 0))))
     (Can1, \<lparr>arbitration_id = 0x141, data = [0x00, 0x00, 0x00, 0x46]\<rparr>) = 6 \<and>
   (Can0, \<lparr>arbitration_id = 0x4CB, data = [0x0c, 0x00, 0x00, 0x00, 0x00, 0x00, 0x00, 0x00]\<rparr>)
     \<in> set (newly_sent (loop_entry 0) (snd (tick_2019 env_quiet (Some acc_343) (loop_entry 0)))) \<and>
   count_list (sent (snd (main_loop_2019 env_quiet (Some acc_343) (Suc 250) (loop_entry 0))))
     (Can0, \<lparr>arbitration_id = 0x4CB, data = [0x0c, 0x00, 0x00, 0x00, 0x00, 0x00, 0x00, 0x00]\<rparr>) = 3"
proof -
  have a: "sends_succeed env_quiet" by (simp add: sends_succeed_def env_quiet_def)
  have b: "encode acc_343 acc_signals = Some [0, 0, 0x63, 0xc0, 0, 0, 0, 113]"
    by (simp add: acc_343_def)
  have c: "(0x141, DSU, [PRIUS, RAV4H, LEXUS_RXH, RAV4, COROLLA], 1, 2, [0x00, 0x00, 0x00, 0x46])
     \<in> set STATIC_MSGS" by (simp add: STATIC_MSGS_def)
  have d: "frame_id acc_343 \<noteq> 0x141" by (simp add: acc_343_def)
  have e: "acc_encodes (Some acc_343)" by (simp add: acc_encodes_def acc_343_def)
  have f: "(0x4CB, 0, 100, [0x0c, 0x00, 0x00, 0x00, 0x00, 0x00, 0x00, 0x00]) \<in> set STATIC_MSGS_2019"
    by (simp add: STATIC_MSGS_2019_def)
  have g: "acc_id_differs (Some acc_343) 0x4CB"
    by (simp add: acc_id_differs_def acc_343_def)
  have h: "frame (loop_entry 0) = 0" by (simp add: loop_entry_def)
  from static_frame_fires_every_period [OF a b c d e f g, of "loop_entry 0" 10 0]
    static_frame_fires_every_period [OF a b c d e f g, of "loop_entry 0" 250 0]
  show ?thesis using a c f by (simp add: h)
qed

section \<open>Transmission: a refused send\<close>

lemma rpi_first_tick_fails:
  "tick_rpi env_141_fails acc_343 (loop_entry 0) =
     (Raised CanError,
      \<lparr>frame = 0, clock = 0,
       sent = [(Can0, \<lparr>arbitration_id = 0x343, data = [0, 0, 0x63, 0xc0, 0, 0, 0, 113]\<rparr>)],
       encoded = [acc_signals], tx_count = 0\<rparr>)"
  by (simp add: tick_rpi_def tick_def acc_encode_def acc_343_def bus_send_def env_141_fails_def
      loop_entry_def STATIC_MSGS_def)

lemma rpi_loop_fails:
  "main_loop_rpi env_141_fails acc_343 (Suc n) (loop_entry 0) =
     (Raised CanError,
      \<lparr>frame = 0, clock = 0,
       sent = [(Can0, \<lparr>arbitration_id = 0x343, data = [0, 0, 0x63, 0xc0, 0, 0, 0, 113]\<rparr>)],
       encoded = [acc_signals], tx_count = 0\<rparr>)"
  by (simp add: main_loop_rpi_def rpi_first_tick_fails)

text \<open>
  C2, as stated, fails. The bus refuses 0x141 on tick 0. The entry 0x128 has period 3, and
  0 mod 3 = 0, but its frame is not sent on tick 0: the exception has left the \<^verbatim>\<open>for\<close> loop
  before its turn. Over the ticks 0..10 it is sent 0 times, where C2 has
  10 div 3 + 1 = 4.
\<close>

theorem failed_send_silences_due_entry:
  "(0x128, DSU, [PRIUS, RAV4H, LEXUS_RXH, RAV4, COROLLA], 1, 3, [0xf4, 0x01, 0x90, 0x83, 0x00, 0x37])
     \<in> set STATIC_MSGS \<and>
   frame (loop_entry 0) mod 3 = 0 \<and>
   (Can1, \<lparr>arbitration_id = 0x128, data = [0xf4, 0x01, 0x90, 0x83, 0x00, 0x37]\<rparr>)
     \<notin> set (newly_sent (loop_entry 0) (snd (tick_rpi env_141_fails acc_343 (loop_entry 0)))) \<and>
   count_list (sent (snd (main_loop_rpi env_141_fails acc_343 (Suc 10) (loop_entry 0))))
     (Can1, \<lparr>arbitration_id = 0x128, data = [0xf4, 0x01, 0x90, 0x83, 0x00, 0x37]\<rparr>) = 0 \<and>
   10 div 3 + 1 = (4 :: nat)"
proof -
  have a: "sent (snd (tick_rpi env_141_fails acc_343 (loop_entry 0))) =
      [(Can0, \<lparr>arbitration_id = 0x343, data = [0, 0, 0x63, 0xc0, 0, 0, 0, 113]\<rparr>)]"
    by (simp add: rpi_first_tick_fails)
  have b: "sent (snd (main_loop_rpi env_141_fails acc_343 (Suc 10) (loop_entry 0))) =
      [(Can0, \<lparr>arbitration_id = 0x343, data = [0, 0, 0x63, 0xc0, 0, 0, 0, 113]\<rparr>)]"
    by (simp only: rpi_loop_fails snd_conv tx_state.simps)
  have c: "sent (loop_entry 0) = []" "frame (loop_entry 0) = 0" by (simp_all add: loop_entry_def)
  show ?thesis unfolding newly_sent_def a b c
    by (simp add: STATIC_MSGS_def)
qed

section \<open>Transmission: payloads and the control frame\<close>

text \<open>
  The rolling counter is in the model: an entry with id 0x489 or 0x48a on bus 0 would have
  a byte appended (on tick 250: 3, and 131 for 0x48a); on bus 1 it would not.
\<close>

lemma tosend_rolling_counter:
  "tosend 250 (0x489, DSU, [PRIUS], 0, 100, [1, 2]) = [1, 2, 3] \<and>
   tosend 250 (0x48a, DSU, [PRIUS], 0, 100, [1, 2]) = [1, 2, 131] \<and>
   tosend 250 (0x489, DSU, [PRIUS], 1, 100, [1, 2]) = [1, 2]"
  by (simp add: tosend_def)

lemma static_frames_fixed:
  "static_frame t ` {m \<in> set STATIC_MSGS. P m} = fixed_frame ` {m \<in> set STATIC_MSGS. P m}"
  by (rule image_cong) (simp_all add: static_frame_fixed)

text \<open>
  C10. No entry of \<^verbatim>\<open>STATIC_MSGS\<close> has the id 0x489 or 0x48a, so the payload built for an
  entry is the table's \<^verbatim>\<open>vl\<close> on every tick; and whatever the \<^verbatim>\<open>for\<close> loop over the table
  puts on a bus (with or without the debug script's counting, and also when a send raises
  part-way) is the frame of an entry that is due, with the table's payload, on the entry's
  bus.
\<close>

theorem static_payload_is_table_payload:
  assumes "m \<in> set STATIC_MSGS" and "static_loop e c STATIC_MSGS s = (r, s')"
  shows "addr_of m \<noteq> 0x489 \<and> addr_of m \<noteq> 0x48a \<and> tosend t m = vl_of m \<and>
         set (newly_sent s s') \<subseteq> fixed_frame ` {m \<in> set STATIC_MSGS. due (frame s) m}"
proof -
  from static_loop_inv [OF assms(2)] obtain new where
    n: "sent s' = sent s @ new"
    and sub: "set new \<subseteq> static_frame (frame s) ` {m \<in> set STATIC_MSGS. due (frame s) m}"
    by blast
  have "newly_sent s s' = new" using n by (simp add: newly_sent_def)
  then have "set (newly_sent s s') \<subseteq> fixed_frame ` {m \<in> set STATIC_MSGS. due (frame s) m}"
    using sub by (simp only: static_frames_fixed)
  then show ?thesis
    using STATIC_MSGS_addrs [OF assms(1)] tosend_fixed [OF STATIC_MSGS_addrs [OF assms(1)], of t]
    by simp
qed

text \<open>
  The theorem at the entry 0x141, tick 250 (where a counter byte would be 3), and at the
  loop run on tick 0 of the quiet environment.
\<close>

theorem static_payload_is_table_payload_witness:
  "entry_141 \<in> set STATIC_MSGS \<and> tosend 250 entry_141 = [0x00, 0x00, 0x00, 0x46] \<and>
   set (newly_sent (loop_entry 0) (snd (static_loop env_quiet False STATIC_MSGS (loop_entry 0))))
     \<subseteq> fixed_frame ` {m \<in> set STATIC_MSGS. due (frame (loop_entry 0)) m}"
proof -
  have a: "entry_141 \<in> set STATIC_MSGS" by (simp add: entry_141_def STATIC_MSGS_def)
  have b: "static_loop env_quiet False STATIC_MSGS (loop_entry 0) =
      (fst (static_loop env_quiet False STATIC_MSGS (loop_entry 0)),
       snd (static_loop env_quiet False STATIC_MSGS (loop_entry 0)))" by simp
  have c: "vl_of entry_141 = [0x00, 0x00, 0x00, 0x46]" by (simp add: vl_of_def entry_141_def)
  from static_payload_is_table_payload [OF a b, of 250] show ?thesis using a c by simp
qed









section \<open>Transmission: the timing of the loop\<close>

lemma sum_work_plus_period:
  "(\<Sum>t\<leftarrow>ts. work_time e t + 1 / 100) = of_nat (length ts) * (1 / 100) + (\<Sum>t\<leftarrow>ts. work_time e t)"
  by (induction ts) (simp_all add: algebra_simps)

lemma clock_rpi_debug:
  assumes ok: "sends_succeed e" and enc: "encode acc acc_signals = Some p"
  shows "clock (snd (iterate (tick e c acc) n (loop_entry t0))) =
           deadline_start t0 n + (\<Sum>t\<leftarrow>[0..<n]. work_time e t)"
proof -
  from iterate_ok [OF ok enc, of c n "loop_entry t0"] obtain s' where
    "iterate (tick e c acc) n (loop_entry t0) = (Normal, s')"
    "clock s' = clock (loop_entry t0) +
       (\<Sum>t\<leftarrow>[frame (loop_entry t0)..<frame (loop_entry t0) + n]. work_time e t + 1 / 100)"
    by blast
  then show ?thesis
    by (simp add: loop_entry_def sum_work_plus_period deadline_start_def)
qed

lemma clock_2019:
  assumes ok: "sends_succeed e" and enc: "acc_encodes acc_message"
  shows "clock (snd (iterate (tick_2019 e acc_message) n (loop_entry t0))) =
           deadline_start t0 n + (\<Sum>t\<leftarrow>[0..<n]. work_time e t)"
proof -
  from iterate_2019_ok [OF ok enc, of n "loop_entry t0"] obtain s' where
    "iterate (tick_2019 e acc_message) n (loop_entry t0) = (Normal, s')"
    "clock s' = clock (loop_entry t0) +
       (\<Sum>t\<leftarrow>[frame (loop_entry t0)..<frame (loop_entry t0) + n]. work_time e t + 1 / 100)"
    by blast
  then show ?thesis
    by (simp add: loop_entry_def sum_work_plus_period deadline_start_def)
qed

text \<open>
  C5, as the code has it. The loops end every iteration with \<^verbatim>\<open>time.sleep(1. / 100)\<close>, a
  constant sleep after the work of the iteration; no deadline is kept. So, while nothing
  fails, the iteration with counter \<open>n\<close> starts at the fixed-rate deadline
  \<open>t0 + n / 100\<close> plus the time the work of the iterations before it took: the schedule
  drifts by the accumulated work time. (The sleep is taken to last exactly as long as asked.)
  Stated for the main loops of the rpi, debug and 2019 scripts.
\<close>

theorem tick_start_drifts_by_work_time:
  assumes "sends_succeed e" and "encode acc acc_signals = Some p" and "acc_encodes acc_message"
  shows "clock (snd (main_loop_rpi e acc n (loop_entry t0))) =
           deadline_start t0 n + (\<Sum>t\<leftarrow>[0..<n]. work_time e t) \<and>
         clock (snd (main_loop_debug e acc n (loop_entry t0))) =
           deadline_start t0 n + (\<Sum>t\<leftarrow>[0..<n]. work_time e t) \<and>
         clock (snd (main_loop_2019 e acc_message n (loop_entry t0))) =
           deadline_start t0 n + (\<Sum>t\<leftarrow>[0..<n]. work_time e t)"
  using clock_rpi_debug [OF assms(1,2)] clock_2019 [OF assms(1,3)]
  by (simp add: main_loop_rpi_def main_loop_debug_def main_loop_2019_def tick_rpi_def tick_debug_def)

lemma env_1ms_ok: "sends_succeed env_1ms"
  by (simp add: sends_succeed_def env_1ms_def)

lemma acc_343_encodes: "encode acc_343 acc_signals = Some [0, 0, 0x63, 0xc0, 0, 0, 0, 113]"
  by (simp add: acc_343_def)

lemma acc_343_encodes_2019: "acc_encodes (Some acc_343)"
  by (simp add: acc_encodes_def acc_343_def)

text \<open>
  The theorem with a millisecond of work per iteration: the fourth iteration starts at
  33 ms, where the fixed-rate deadline is 30 ms.
\<close>

theorem tick_start_drifts_by_work_time_witness:
  "sends_succeed env_1ms \<and> acc_encodes (Some acc_343) \<and>
   clock (snd (main_loop_rpi env_1ms acc_343 3 (loop_entry 0))) = 33 / 1000 \<and>
   clock (snd (main_loop_2019 env_1ms (Some acc_343) 3 (loop_entry 0))) = 33 / 1000 \<and>
   deadline_start 0 3 = 30 / 1000"
proof -
  have u: "[0..<3] = [0, 1, 2]" by (simp add: upt_rec)
  from tick_start_drifts_by_work_time [OF env_1ms_ok acc_343_encodes acc_343_encodes_2019, of 3 0]
  show ?thesis using env_1ms_ok acc_343_encodes_2019
    by (simp add: u deadline_start_def env_1ms_def)
qed

text \<open>
  C5, as stated, fails. With a millisecond of work per iteration the rpi loop is still
  running after its first iteration and starts the second at 11 ms; a loop that advanced a
  deadline by the tick period and slept until it would start it at 10 ms.
\<close>

theorem fixed_sleep_is_not_deadline_based:
  "fst (main_loop_rpi env_1ms acc_343 1 (loop_entry 0)) = Normal \<and>
   clock (snd (main_loop_rpi env_1ms acc_343 1 (loop_entry 0))) = 11 / 1000 \<and>
   deadline_start 0 1 = 10 / 1000 \<and>
   clock (snd (main_loop_rpi env_1ms acc_343 1 (loop_entry 0))) \<noteq> deadline_start 0 1"
proof -
  from iterate_ok [OF env_1ms_ok acc_343_encodes, of False 1 "loop_entry 0"] obtain s' where
    "iterate (tick env_1ms False acc_343) 1 (loop_entry 0) = (Normal, s')"
    "clock s' = clock (loop_entry 0) +
       (\<Sum>t\<leftarrow>[frame (loop_entry 0)..<frame (loop_entry 0) + 1]. work_time env_1ms t + 1 / 100)"
    by blast
  then show ?thesis
    by (simp add: main_loop_rpi_def tick_rpi_def loop_entry_def deadline_start_def env_1ms_def)
qed

section \<open>Transmission: failures\<close>











section \<open>The cleanup never raises\<close>














section \<open>The track cache: the new-track flag\<close>

lemma upsert_new_track:
  "new_track (fst (upsert T now X lo la rs cache)) =
     (cache X = None \<or> (\<exists>prior. cache X = Some prior \<and> now - timestamp prior > T))"
  by (cases "cache X") (simp_all add: upsert_def Let_def)

lemma upsert_stores:
  "snd (upsert T now X lo la rs cache) X = Some (fst (upsert T now X lo la rs cache)) \<and>
   timestamp (fst (upsert T now X lo la rs cache)) = now \<and>
   track_id (fst (upsert T now X lo la rs cache)) = X"
  by (simp add: upsert_def Let_def)

lemma upsert_after_sweep:
  assumes "now' \<le> now"
  shows "new_track (fst (upsert T now X lo la rs (sweep T now' cache))) =
         new_track (fst (upsert T now X lo la rs cache))"
proof (cases "cache X")
  case None
  then show ?thesis by (simp add: upsert_def Let_def sweep_def)
next
  case (Some prior)
  show ?thesis
  proof (cases "now' - timestamp prior > T")
    case True
    with assms have "now - timestamp prior > T" by simp
    with True Some show ?thesis by (simp add: upsert_def Let_def sweep_def)
  next
    case False
    with Some show ?thesis by (simp add: upsert_def Let_def sweep_def)
  qed
qed

text \<open>
  C7, on the track cache modelled from the spec. The \<^verbatim>\<open>new_track\<close> flag of the track
  delivered by an update of id \<open>X\<close> is true exactly when the cache held no entry for \<open>X\<close>
  or the entry it held was older than \<^verbatim>\<open>track_timeout\<close> at the moment of the update. The
  update stores the track it delivers, stamped with the time of the update. Whether a stale
  entry was removed by a sweep before the update makes no difference to the flag. With
  \<^verbatim>\<open>track_timeout = 0.5\<close>, updates of one id at the times 0, 0.1 and 0.7 deliver true,
  false, true.
\<close>

theorem new_track_iff_absent_or_aged_out:
  "new_track (fst (upsert T now X lo la rs cache)) =
     (cache X = None \<or> (\<exists>prior. cache X = Some prior \<and> now - timestamp prior > T)) \<and>
   snd (upsert T now X lo la rs cache) X = Some (fst (upsert T now X lo la rs cache)) \<and>
   timestamp (fst (upsert T now X lo la rs cache)) = now \<and>
   (now' \<le> now \<longrightarrow>
      new_track (fst (upsert T now X lo la rs (sweep T now' cache))) =
      new_track (fst (upsert T now X lo la rs cache))) \<and>
   new_track_flags (1 / 2) X [0, 1 / 10, 7 / 10] Map.empty = [True, False, True]"
proof -
  have "new_track_flags (1 / 2) X [0, 1 / 10, 7 / 10] Map.empty = [True, False, True]"
    by (simp add: upsert_def Let_def)
  then show ?thesis
    using upsert_new_track [of T now X lo la rs cache] upsert_stores [of T now X lo la rs cache]
      upsert_after_sweep [of now' now T X lo la rs cache]
    by blast
qed

text \<open>
  The theorem at a cache that saw track 7 at time 0, with \<^verbatim>\<open>track_timeout = 0.5\<close>: a
  sweep at 0.6 removes the entry, and the update at 0.7 delivers a new track with and
  without the sweep; an update at 0.1 does not.
\<close>

theorem new_track_iff_absent_or_aged_out_witness:
  "(6 / 10 :: rat) \<le> 7 / 10 \<and>
   sweep (1 / 2) (6 / 10) seen_at_0 7 = None \<and>
   new_track (fst (upsert (1 / 2) (7 / 10) 7 12 0 0 (sweep (1 / 2) (6 / 10) seen_at_0))) \<and>
   new_track (fst (upsert (1 / 2) (7 / 10) 7 12 0 0 seen_at_0)) \<and>
   \<not> new_track (fst (upsert (1 / 2) (1 / 10) 7 12 0 0 seen_at_0))"
proof -
  have a: "(6 / 10 :: rat) \<le> 7 / 10" by simp
  have b: "sweep (1 / 2) (6 / 10) seen_at_0 7 = None" by (simp add: sweep_def seen_at_0_def)
  have c: "new_track (fst (upsert (1 / 2) (7 / 10) 7 12 0 0 seen_at_0))"
    "\<not> new_track (fst (upsert (1 / 2) (1 / 10) 7 12 0 0 seen_at_0))"
    by (simp_all add: upsert_def Let_def seen_at_0_def)
  from new_track_iff_absent_or_aged_out
    [of "1 / 2" "7 / 10" 7 12 0 0 seen_at_0 "6 / 10"] a c
  have "new_track (fst (upsert (1 / 2) (7 / 10) 7 12 0 0 (sweep (1 / 2) (6 / 10) seen_at_0)))"
    by blast
  then show ?thesis using a b c by blast
qed

end
